theory Spec2Isabelle
  imports Main "HOL-Library.Multiset"
begin

section \<open>Python values used by port\_scanner.py\<close>

text \<open>
  Port numbers and chunk counts are Python integers (unbounded), so they are \<open>int\<close>.
  An exception is a value: \<open>ZeroDivisionError\<close> for the integer division of
  \<open>divide_ports\<close>, and \<open>Exception msg\<close> for an exception that an
  \<^verbatim>\<open>except Exception as e\<close> clause of the scanner catches, with \<open>msg\<close> the text of
  \<^verbatim>\<open>str(e)\<close>.
\<close>

type_synonym port = int

datatype arith_exn = ZeroDivisionError

datatype exn = Exception string

text \<open>
  A bound of a slice \<^verbatim>\<open>xs[i:j]\<close>: a negative bound counts from the end, and every bound
  is clipped to the list.
\<close>

definition py_bound :: "nat \<Rightarrow> int \<Rightarrow> nat" where
  "py_bound n i = (if i < 0 then nat (max 0 (int n + i)) else min n (nat i))"

definition py_slice :: "'a list \<Rightarrow> int \<Rightarrow> int \<Rightarrow> 'a list" where
  "py_slice xs i j =
     (let lo = py_bound (length xs) i; hi = py_bound (length xs) j
      in take (hi - lo) (drop lo xs))"

definition py_slice_from :: "'a list \<Rightarrow> int \<Rightarrow> 'a list" where
  "py_slice_from xs i = drop (py_bound (length xs) i) xs"

text \<open>\<^verbatim>\<open>range(n)\<close>: empty when \<open>n \<le> 0\<close>.\<close>

definition py_range :: "int \<Rightarrow> int list" where
  "py_range n = map int [0..<nat n]"

section \<open>divide\_ports\<close>

text \<open>
  \<^verbatim>\<open>
  def divide_ports(ports, num_chunks):
      if num_chunks > len(ports):
          num_chunks = len(ports)
      chunk_size = len(ports) // num_chunks
      return [ports[i * chunk_size:(i + 1) * chunk_size] for i in range(num_chunks)]
             + [ports[num_chunks * chunk_size:]]
  \<close>
  The floor division raises \<open>ZeroDivisionError\<close> when the (clamped) chunk count is 0.
  \<open>div\<close> on \<open>int\<close> rounds towards minus infinity, as Python's \<^verbatim>\<open>//\<close> does.
\<close>

definition divide_ports :: "'a list \<Rightarrow> int \<Rightarrow> arith_exn + 'a list list" where
  "divide_ports ports num_chunks =
     (let num_chunks = (if num_chunks > int (length ports) then int (length ports) else num_chunks)
      in if num_chunks = 0 then Inl ZeroDivisionError
         else
           let chunk_size = int (length ports) div num_chunks
           in Inr (map (\<lambda>i. py_slice ports (i * chunk_size) ((i + 1) * chunk_size)) (py_range num_chunks)
                   @ [py_slice_from ports (num_chunks * chunk_size)]))"

section \<open>The operating system and the worker pools\<close>

text \<open>
  A probe talks to the operating system twice: \<^verbatim>\<open>socket.socket(...)\<close> creates the socket
  (or raises, for instance when the process has no file descriptor left), and
  \<^verbatim>\<open>scanner.connect((ip, port))\<close> connects, times out, is refused, or raises another
  exception. What happens is not decided by the program, so it is an input of the model:
  a \<open>net\<close> says what the system does with a probe of a host and a port.
\<close>

datatype connect_event = Connected | TimedOut | Refused | Fault string

datatype sock_event = SocketError string | Socket connect_event

type_synonym net = "string \<Rightarrow> port \<Rightarrow> sock_event"

text \<open>
  A pool of \<open>concurrent.futures\<close> runs the submitted tasks and completes them in an order
  of its own, which depends on the pool size: a \<open>sched\<close> gives, for a pool size and a
  number of submitted tasks, the indices of the tasks in the order of their completion.
  A task that the order leaves out never completes, and neither does a task that never
  returns (\<open>None\<close>). \<open>pool_results order tasks\<close> is the state of the futures once the pool
  has run: future \<open>i\<close> holds the value or the exception of task \<open>i\<close> if it is done.
  \<^verbatim>\<open>future.result()\<close> on a future that is never done blocks for ever.
\<close>

type_synonym sched = "int \<Rightarrow> nat \<Rightarrow> nat list"

definition pool_results :: "nat list \<Rightarrow> 'r option list \<Rightarrow> (nat \<rightharpoonup> 'r)" where
  "pool_results order tasks i =
     (if i < length tasks \<and> i \<in> set order then tasks ! i else None)"

definition completes :: "nat list \<Rightarrow> nat \<Rightarrow> bool" where
  "completes order n = list_all (\<lambda>i. i \<in> set order) [0..<n]"

text \<open>
  A \<open>ProcessPoolExecutor\<close> can break: when one of its worker processes dies, every future
  that is not done yet raises \<open>BrokenProcessPool\<close>, and the futures that are done keep
  their results. \<open>Some k\<close> says that a worker dies when \<open>k\<close> units have completed, \<open>None\<close>
  that no worker dies.
\<close>

definition broken_pool :: exn where
  "broken_pool = Exception
     ''A process in the process pool was terminated abruptly while the future was running or pending.''"

definition process_pool_results ::
  "nat list \<Rightarrow> nat option \<Rightarrow> (exn + 'r) option list \<Rightarrow> (nat \<rightharpoonup> exn + 'r)" where
  "process_pool_results order death tasks i =
     (case death of
        None \<Rightarrow> pool_results order tasks i
      | Some k \<Rightarrow>
          if i < length tasks
          then (case pool_results (take k order) tasks i of
                  Some result \<Rightarrow> Some result
                | None \<Rightarrow> Some (Inl broken_pool))
          else None)"

text \<open>
  The environment of one batch (one call of \<open>scan_ports\<close>): the scheduling of its thread
  pool, and what the system does with the \<open>i\<close>-th submitted probe. The environment of a
  network scan: the scheduling of the process pool, the death of a worker process (if
  any), and the environment of the batch that unit \<open>u\<close> runs.
\<close>

record batch_env =
  threads :: sched
  network :: "nat \<Rightarrow> net"

record scan_env =
  processes :: sched
  worker_death :: "nat option"
  unit_env :: "nat \<Rightarrow> batch_env"

section \<open>PortScanner\<close>

record PortScanner =
  timeout :: int

type_synonym probe_result = "bool \<times> string option"

type_synonym batch = "port list \<times> (port \<times> string) list"

text \<open>
  \<^verbatim>\<open>
  def scan_port(self, ip, port):
      scanner = socket.socket(socket.AF_INET, socket.SOCK_STREAM)
      scanner.settimeout(self.timeout)
      try:
          scanner.connect((ip, port))
          return True, None
      except (socket.timeout, ConnectionRefusedError):
          return False, None
      except Exception as e:
          return False, str(e)
      finally:
          scanner.close()
  \<close>
  The first two statements are outside the \<^verbatim>\<open>try\<close>, so their exceptions reach the caller:
  an exception of \<^verbatim>\<open>socket.socket\<close>, and those of \<^verbatim>\<open>settimeout\<close>, which converts the
  timeout to a 64-bit count of nanoseconds. It raises \<open>OverflowError\<close> when the seconds do
  not fit (an integer timeout above 9223372036 or below -9223372036; the text is that of
  CPython 3.8 to 3.12) and \<open>ValueError\<close> on any other negative timeout.
\<close>

definition max_timeout :: int where
  "max_timeout = 9223372036"

definition scan_port :: "PortScanner \<Rightarrow> net \<Rightarrow> string \<Rightarrow> port \<Rightarrow> exn + probe_result" where
  "scan_port self net ip port =
     (case net ip port of
        SocketError msg \<Rightarrow> Inl (Exception msg)
      | Socket ev \<Rightarrow>
          if timeout self > max_timeout \<or> timeout self < - max_timeout
          then Inl (Exception ''timestamp too large to convert to C _PyTime_t'')
          else if timeout self < 0 then Inl (Exception ''Timeout value out of range'')
          else (case ev of
                  Connected \<Rightarrow> Inr (True, None)
                | TimedOut \<Rightarrow> Inr (False, None)
                | Refused \<Rightarrow> Inr (False, None)
                | Fault msg \<Rightarrow> Inr (False, Some msg)))"

text \<open>
  The body of the loop of \<open>scan_ports\<close> for one future whose result is known:
  \<^verbatim>\<open>
  try:
      is_open, error = future.result()
      if is_open:
          open_ports.append(port)
      if error:
          errors.append((port, error))
  except Exception as e:
      errors.append((port, str(e)))
  \<close>
  \<^verbatim>\<open>if error\<close> is Python's truth test: \<open>None\<close> and the empty string are both false.
\<close>

definition truthy :: "string option \<Rightarrow> bool" where
  "truthy error = (case error of None \<Rightarrow> False | Some msg \<Rightarrow> msg \<noteq> [])"

definition record_result :: "port \<Rightarrow> exn + probe_result \<Rightarrow> batch \<Rightarrow> batch" where
  "record_result port result acc =
     (case acc of (open_ports, errors) \<Rightarrow>
        (case result of
           Inr (is_open, error) \<Rightarrow>
             (if is_open then open_ports @ [port] else open_ports,
              case error of
                Some msg \<Rightarrow> if truthy error then errors @ [(port, msg)] else errors
              | None \<Rightarrow> errors)
         | Inl (Exception msg) \<Rightarrow> (open_ports, errors @ [(port, msg)])))"

text \<open>
  \<^verbatim>\<open>for future in futures\<close> visits the futures in the order of their submission, which is
  the order of the ports; future \<open>i\<close> belongs to the \<open>i\<close>-th port. The loop does not return
  (\<open>None\<close>) when a future it waits for is never done.
\<close>

fun scan_ports_loop ::
  "(nat \<rightharpoonup> exn + probe_result) \<Rightarrow> nat \<Rightarrow> port list \<Rightarrow> batch \<Rightarrow> batch option" where
  "scan_ports_loop done i [] acc = Some acc"
| "scan_ports_loop done i (port # rest) acc =
     (case done i of
        None \<Rightarrow> None
      | Some result \<Rightarrow> scan_ports_loop done (Suc i) rest (record_result port result acc))"

text \<open>
  \<^verbatim>\<open>
  def scan_ports(self, ip, ports, max_workers):
      open_ports = []
      errors = []
      with ThreadPoolExecutor(max_workers=max_workers) as executor:
          futures = {executor.submit(self.scan_port, ip, port): port for port in ports}
          for future in futures: ...
      return open_ports, errors
  \<close>
  \<open>ThreadPoolExecutor\<close> raises \<open>ValueError\<close> when \<open>max_workers\<close> is not positive. The futures
  are distinct objects, so a port that occurs twice has two futures.
\<close>

definition submit_probes :: "PortScanner \<Rightarrow> batch_env \<Rightarrow> string \<Rightarrow> port list \<Rightarrow> (exn + probe_result) list" where
  "submit_probes self env ip ports =
     map (\<lambda>(i, port). scan_port self (network env i) ip port) (enumerate 0 ports)"

definition scan_ports ::
  "PortScanner \<Rightarrow> batch_env \<Rightarrow> string \<Rightarrow> port list \<Rightarrow> int \<Rightarrow> (exn + batch) option" where
  "scan_ports self env ip ports max_workers =
     (if max_workers \<le> 0 then Some (Inl (Exception ''max_workers must be greater than 0''))
      else
        let futures = pool_results (threads env max_workers (length ports))
                        (map Some (submit_probes self env ip ports))
        in map_option Inr (scan_ports_loop futures 0 ports ([], [])))"

section \<open>NetworkScanner\<close>

text \<open>
  \<open>NetworkScanner.__init__\<close> stores its arguments and a \<open>PortScanner()\<close> with the default
  timeout of 1 second.
\<close>

record NetworkScanner =
  ip_range :: string
  ports :: "port list"
  num_processes :: int
  max_workers :: int
  port_scanner :: PortScanner

definition NetworkScanner_init :: "string \<Rightarrow> port list \<Rightarrow> int \<Rightarrow> int \<Rightarrow> NetworkScanner" where
  "NetworkScanner_init r ps n w =
     \<lparr>ip_range = r, ports = ps, num_processes = n, max_workers = w,
      port_scanner = \<lparr>timeout = 1\<rparr>\<rparr>"

definition scan_ip :: "NetworkScanner \<Rightarrow> batch_env \<Rightarrow> string \<Rightarrow> port list \<Rightarrow> (exn + batch) option" where
  "scan_ip self env ip port_range =
     scan_ports (port_scanner self) env ip port_range (max_workers self)"

text \<open>
  The dictionaries are maps from the host to its list. The two updates of the loop body
  are the same operation:
  \<^verbatim>\<open>
  if ip not in open_ports_dict:
      open_ports_dict[ip] = []
  open_ports_dict[ip].extend(open_ports)
  \<close>
\<close>

type_synonym 'a host_dict = "string \<rightharpoonup> 'a list"

type_synonym scan_result = "port host_dict \<times> (port \<times> string) host_dict"

definition extend :: "'a host_dict \<Rightarrow> string \<Rightarrow> 'a list \<Rightarrow> 'a host_dict" where
  "extend d ip xs = d(ip \<mapsto> (case d ip of None \<Rightarrow> [] | Some ys \<Rightarrow> ys) @ xs)"

text \<open>
  The body of the loop of \<open>scan_network\<close> for one future whose result is known:
  \<^verbatim>\<open>
  try:
      open_ports, errors = future.result()
      if open_ports:
          ... open_ports_dict[ip].extend(open_ports)
      if errors:
          ... errors_dict[ip].extend(errors)
  except Exception as e:
      logging.error(...)
  \<close>
\<close>

definition record_unit :: "string \<Rightarrow> exn + batch \<Rightarrow> scan_result \<Rightarrow> scan_result" where
  "record_unit ip result acc =
     (case acc of (open_ports_dict, errors_dict) \<Rightarrow>
        (case result of
           Inr (open_ports, errors) \<Rightarrow>
             (if open_ports \<noteq> [] then extend open_ports_dict ip open_ports else open_ports_dict,
              if errors \<noteq> [] then extend errors_dict ip errors else errors_dict)
         | Inl e \<Rightarrow> (open_ports_dict, errors_dict)))"

fun scan_network_loop ::
  "(nat \<rightharpoonup> exn + batch) \<Rightarrow> nat \<Rightarrow> (string \<times> port list) list \<Rightarrow> scan_result \<Rightarrow> scan_result option" where
  "scan_network_loop done u [] acc = Some acc"
| "scan_network_loop done u ((ip, port_range) # rest) acc =
     (case done u of
        None \<Rightarrow> None
      | Some result \<Rightarrow> scan_network_loop done (Suc u) rest (record_unit ip result acc))"

text \<open>
  \<^verbatim>\<open>
  def scan_network(self, port_ranges):
      network = ipaddress.ip_network(self.ip_range)
      open_ports_dict = {}
      errors_dict = {}
      with ProcessPoolExecutor(max_workers=self.num_processes) as executor:
          futures = {executor.submit(self._scan_ip, str(ip), port_range): (str(ip), port_range)
                     for ip in network.hosts() for port_range in port_ranges}
          for future in futures: ...
      return open_ports_dict, errors_dict
  \<close>
  \<open>ipaddress\<close> is a library: \<open>ip_hosts\<close> stands for \<^verbatim>\<open>ipaddress.ip_network(r).hosts()\<close> with
  every address converted by \<^verbatim>\<open>str\<close>, or for the exception that \<^verbatim>\<open>ip_network\<close> raises on a
  string that is no network. \<open>ProcessPoolExecutor\<close> raises \<open>ValueError\<close> when
  \<open>max_workers\<close> is not positive. The units are submitted host by host, and for each
  host chunk by chunk. The future of unit \<open>u\<close> raises when \<open>_scan_ip\<close> raises in the
  worker, or when the pool breaks before the unit is done.
\<close>

definition scan_units :: "string list \<Rightarrow> port list list \<Rightarrow> (string \<times> port list) list" where
  "scan_units hosts port_ranges =
     concat (map (\<lambda>ip. map (\<lambda>port_range. (ip, port_range)) port_ranges) hosts)"

definition submit_units ::
  "NetworkScanner \<Rightarrow> scan_env \<Rightarrow> (string \<times> port list) list \<Rightarrow> (exn + batch) option list" where
  "submit_units self env units =
     map (\<lambda>(u, (ip, port_range)). scan_ip self (unit_env env u) ip port_range)
         (enumerate 0 units)"

definition unit_futures ::
  "NetworkScanner \<Rightarrow> scan_env \<Rightarrow> (string \<times> port list) list \<Rightarrow> (nat \<rightharpoonup> exn + batch)" where
  "unit_futures self env units =
     process_pool_results (processes env (num_processes self) (length units)) (worker_death env)
       (submit_units self env units)"

definition scan_network ::
  "NetworkScanner \<Rightarrow> (string \<Rightarrow> exn + string list) \<Rightarrow> scan_env \<Rightarrow> port list list \<Rightarrow>
     (exn + scan_result) option" where
  "scan_network self ip_hosts env port_ranges =
     (case ip_hosts (ip_range self) of
        Inl e \<Rightarrow> Some (Inl e)
      | Inr hosts \<Rightarrow>
          if num_processes self \<le> 0
          then Some (Inl (Exception ''max_workers must be greater than 0''))
          else
            let units = scan_units hosts port_ranges;
                futures = unit_futures self env units
            in map_option Inr (scan_network_loop futures 0 units (Map.empty, Map.empty)))"

section \<open>What a probe contributes to its batch\<close>

text \<open>
  The loop body of \<open>scan_ports\<close> reads the result of a future: it appends to the open
  ports when \<open>is_open\<close> is true, and to the errors when the error is true or when the
  future raised. A result that does neither is dropped without a trace; \<open>closed\<close> is the
  result \<^verbatim>\<open>(False, None)\<close> of a refused or timed-out connection.
\<close>

definition opened :: "exn + probe_result \<Rightarrow> bool" where
  "opened result = (case result of Inr (is_open, error) \<Rightarrow> is_open | Inl e \<Rightarrow> False)"

definition errored :: "exn + probe_result \<Rightarrow> bool" where
  "errored result = (case result of Inr (is_open, error) \<Rightarrow> truthy error | Inl e \<Rightarrow> True)"

definition dropped :: "exn + probe_result \<Rightarrow> bool" where
  "dropped result = (\<not> opened result \<and> \<not> errored result)"

definition closed :: "exn + probe_result \<Rightarrow> bool" where
  "closed result = (result = Inr (False, None))"

text \<open>
  \<open>message\<close> is the text that an error entry carries, and \<open>collect\<close> runs the loop body
  over futures whose results are known, in the order of the loop.
\<close>

definition message :: "exn + probe_result \<Rightarrow> string" where
  "message result =
     (case result of
        Inl (Exception msg) \<Rightarrow> msg
      | Inr (is_open, error) \<Rightarrow> (case error of Some msg \<Rightarrow> msg | None \<Rightarrow> []))"

definition collect :: "(port \<times> (exn + probe_result)) list \<Rightarrow> batch \<Rightarrow> batch" where
  "collect prs acc = foldl (\<lambda>acc (port, result). record_result port result acc) acc prs"

text \<open>
  \<open>aggregate\<close> runs the loop body of \<open>scan_network\<close> over units whose results are known, in
  the order of the loop.
\<close>

definition aggregate :: "(string \<times> (exn + batch)) list \<Rightarrow> scan_result \<Rightarrow> scan_result" where
  "aggregate irs acc = foldl (\<lambda>acc (ip, result). record_unit ip result acc) acc irs"

section \<open>Example environments\<close>

text \<open>
  A network with a listener on port 22 only; port 25 is unreachable, and the probe of
  port 26 finds no file descriptor for its socket. A network where no socket can be
  created. Pools that complete their tasks in the order of submission, in the reverse
  order, and in an order that depends on the pool size.
\<close>

definition demo_net :: net where
  "demo_net ip port =
     (if port = 22 then Socket Connected
      else if port = 23 then Socket Refused
      else if port = 24 then Socket TimedOut
      else if port = 25 then Socket (Fault ''[Errno 101] Network is unreachable'')
      else if port = 26 then SocketError ''[Errno 24] Too many open files''
      else Socket Refused)"

definition exhausted_net :: net where
  "exhausted_net ip port = SocketError ''[Errno 24] Too many open files''"

definition fifo :: sched where
  "fifo c n = [0..<n]"

definition lifo :: sched where
  "lifo c n = rev [0..<n]"

definition by_pool_size :: sched where
  "by_pool_size c n = (if c \<le> 1 then [0..<n] else rev [0..<n])"

definition demo_batch_env :: batch_env where
  "demo_batch_env = \<lparr>threads = lifo, network = (\<lambda>i. demo_net)\<rparr>"

definition demo_scan_env :: scan_env where
  "demo_scan_env =
     \<lparr>processes = by_pool_size, worker_death = None, unit_env = (\<lambda>u. demo_batch_env)\<rparr>"


definition demo_hosts :: "string \<Rightarrow> exn + string list" where
  "demo_hosts r =
     (if r = ''10.0.0.0/30'' then Inr [''10.0.0.1'', ''10.0.0.2'']
      else Inl (Exception ''does not appear to be an IPv4 or IPv6 network''))"

text \<open>
  A scan of two hosts with three chunks, the last one empty, and the results of its six
  units. In \<open>broken_scan_env\<close> a worker dies when four units have completed: with a pool of
  size 8, which completes the units in reverse order, units 0 and 1 are lost; with a pool
  of size 1, units 4 and 5.
\<close>

definition demo_scanner :: NetworkScanner where
  "demo_scanner = NetworkScanner_init ''10.0.0.0/30'' [22, 23, 25, 26] 8 100"

definition demo_port_ranges :: "port list list" where
  "demo_port_ranges = [[22, 23], [25, 26], []]"

definition demo_units :: "(string \<times> port list) list" where
  "demo_units =
     [(''10.0.0.1'', [22, 23]), (''10.0.0.1'', [25, 26]), (''10.0.0.1'', []),
      (''10.0.0.2'', [22, 23]), (''10.0.0.2'', [25, 26]), (''10.0.0.2'', [])]"

definition demo_results :: "(exn + batch) list" where
  "demo_results =
     [Inr ([22], []),
      Inr ([], [(25, ''[Errno 101] Network is unreachable''),
                (26, ''[Errno 24] Too many open files'')]),
      Inr ([], []),
      Inr ([22], []),
      Inr ([], [(25, ''[Errno 101] Network is unreachable''),
                (26, ''[Errno 24] Too many open files'')]),
      Inr ([], [])]"



text \<open>
  The network of the examples, except that the connect to port 30 raises an exception whose
  text is empty (\<^verbatim>\<open>str(MemoryError())\<close> is the empty string, for one).
\<close>

definition empty_text_net :: net where
  "empty_text_net ip port = (if port = 30 then Socket (Fault []) else demo_net ip port)"

definition empty_text_env :: batch_env where
  "empty_text_env = \<lparr>threads = fifo, network = (\<lambda>i. empty_text_net)\<rparr>"

section \<open>Properties of divide\_ports\<close>

lemma py_slice_nat:
  "py_slice xs (int a) (int b) =
     take (min (length xs) b - min (length xs) a) (drop (min (length xs) a) xs)"
  by (simp add: py_slice_def py_bound_def Let_def)

lemma py_slice_chunk:
  assumes "(i + 1) * s \<le> length xs"
  shows "py_slice xs (int i * int s) ((int i + 1) * int s) = take s (drop (i * s) xs)"
proof -
  have a: "int i * int s = int (i * s)" by simp
  have b: "(int i + 1) * int s = int ((i + 1) * s)" by (simp add: algebra_simps)
  have le: "i * s \<le> length xs" using assms by simp
  show ?thesis unfolding a b py_slice_nat using assms le
    by (simp add: min_absorb2)
qed

lemma py_slice_from_nat: "py_slice_from xs (int a) = drop a xs"
proof (cases "a \<le> length xs")
  case True
  then show ?thesis by (simp add: py_slice_from_def py_bound_def min_absorb2)
next
  case False
  then show ?thesis by (simp add: py_slice_from_def py_bound_def min_absorb1)
qed

lemma concat_chunks:
  "concat (map (\<lambda>i. take s (drop (i * s) xs)) [0..<m]) = take (m * s) xs"
proof (induction m)
  case 0
  show ?case by simp
next
  case (Suc m)
  have "take (m * s) xs @ take s (drop (m * s) xs) = take (m * s + s) xs"
    by (simp add: take_add)
  with Suc show ?case by (simp add: add.commute)
qed

text \<open>
  On a non-empty list and a chunk count of at least 1 every slice bound is within the
  list, and the call returns the chunks below (\<open>m\<close> is the clamped chunk count).
\<close>

lemma divide_ports_nat:
  assumes "ps \<noteq> []" and "1 \<le> n"
    and m: "m = (if n > int (length ps) then length ps else nat n)"
    and s: "s = length ps div m"
  shows "divide_ports ps n =
           Inr (map (\<lambda>i. take s (drop (i * s) ps)) [0..<m] @ [drop (m * s) ps])"
proof -
  have mpos: "0 < m" and mle: "m \<le> length ps" using assms by (auto split: if_splits)
  have clamp: "(if n > int (length ps) then int (length ps) else n) = int m"
    using assms by auto
  have sdiv: "int (length ps) div int m = int s" using s by (simp add: zdiv_int)
  have bound: "m * s \<le> length ps" unfolding s by simp
  have chunk: "py_slice ps (int i * int s) ((int i + 1) * int s) = take s (drop (i * s) ps)"
    if "i < m" for i
  proof (rule py_slice_chunk)
    have "(i + 1) * s \<le> m * s" using that by (intro mult_right_mono) auto
    then show "(i + 1) * s \<le> length ps" using bound by linarith
  qed
  have maps: "map (\<lambda>i. py_slice ps (i * int s) ((i + 1) * int s)) (py_range (int m))
        = map (\<lambda>i. take s (drop (i * s) ps)) [0..<m]"
    using chunk by (simp add: py_range_def)
  have last: "py_slice_from ps (int m * int s) = drop (m * s) ps"
    using py_slice_from_nat [of ps "m * s"] by simp
  show ?thesis
    unfolding divide_ports_def clamp Let_def sdiv using mpos maps last by simp
qed

text \<open>
  Claim C1, as amended. For every non-empty port list and every chunk count \<open>n \<ge> 1\<close>,
  \<open>divide_ports\<close> returns chunks whose multiset union is the port list: no port is
  duplicated and none is lost. The chunks even concatenate to the list, in order.
\<close>

theorem divide_ports_complete:
  assumes "ps \<noteq> []" and "1 \<le> n"
  shows "\<exists>chunks. divide_ports ps n = Inr chunks \<and>
           sum_list (map mset chunks) = mset ps \<and> concat chunks = ps"
proof -
  define m where "m = (if n > int (length ps) then length ps else nat n)"
  define s where "s = length ps div m"
  let ?chunks = "map (\<lambda>i. take s (drop (i * s) ps)) [0..<m] @ [drop (m * s) ps]"
  have r: "divide_ports ps n = Inr ?chunks"
    using divide_ports_nat [OF assms m_def s_def] .
  have c: "concat ?chunks = ps"
    by (simp add: concat_chunks)
  have "sum_list (map mset ?chunks) = mset (concat ?chunks)"
    by (simp only: mset_concat)
  with c have "sum_list (map mset ?chunks) = mset ps" by simp
  with r c show ?thesis by blast
qed

theorem divide_ports_complete_witness:
  "[10, 20, 30, 40, 50, 60, 70 :: port] \<noteq> [] \<and> (1::int) \<le> 3 \<and>
   (\<exists>chunks. divide_ports [10, 20, 30, 40, 50, 60, 70 :: port] 3 = Inr chunks \<and>
      sum_list (map mset chunks) = mset [10, 20, 30, 40, 50, 60, 70] \<and>
      concat chunks = [10, 20, 30, 40, 50, 60, 70])"
proof -
  have h1: "[10, 20, 30, 40, 50, 60, 70 :: port] \<noteq> []" by simp
  have h2: "(1::int) \<le> 3" by simp
  show ?thesis using h1 h2 divide_ports_complete [OF h1 h2] by simp
qed

text \<open>
  Claim C1 as stated quantifies over every port list. On the empty list with chunk count 1
  the clamp sets the chunk count to 0 and the division raises: no chunks are returned.
\<close>

theorem divide_ports_complete_counterexample:
  "divide_ports ([] :: port list) 1 = Inl ZeroDivisionError \<and>
   \<not> (\<exists>chunks. divide_ports ([] :: port list) 1 = Inr chunks \<and> sum_list (map mset chunks) = mset [])"
  by (simp add: divide_ports_def)

text \<open>
  Claim C2. For every non-empty port list and every requested chunk count \<open>n \<ge> 1\<close>,
  with \<open>m\<close> the chunk count clamped down to the number of ports and
  \<open>sz = len(ports) // m\<close>, \<open>divide_ports\<close> returns \<open>m + 1\<close> chunks: chunk \<open>i < m\<close> is
  the \<open>sz\<close> contiguous ports from position \<open>i * sz\<close> on, in input order, and the trailing
  chunk holds the remaining \<open>len(ports) mod m\<close> ports. Ports 1 to 5 in 5 chunks give five
  singleton chunks and one empty trailing chunk.
\<close>

theorem divide_ports_shape:
  assumes "ps \<noteq> []" and "1 \<le> n"
    and "m = (if n > int (length ps) then length ps else nat n)"
    and "sz = length ps div m"
  shows "(\<exists>chunks. divide_ports ps n = Inr chunks \<and>
            length chunks = m + 1 \<and>
            (\<forall>i<m. chunks ! i = take sz (drop (i * sz) ps) \<and> length (chunks ! i) = sz) \<and>
            chunks ! m = drop (m * sz) ps \<and>
            length (chunks ! m) = length ps mod m) \<and>
         divide_ports [1, 2, 3, 4, 5 :: port] 5 = Inr [[1], [2], [3], [4], [5], []]"
proof -
  let ?f = "\<lambda>i. take sz (drop (i * sz) ps)"
  let ?chunks = "map ?f [0..<m] @ [drop (m * sz) ps]"
  have r: "divide_ports ps n = Inr ?chunks"
    using divide_ports_nat [OF assms] .
  have bound: "m * sz \<le> length ps" using assms(4) by simp
  have len: "length ?chunks = m + 1" by simp
  have nth: "?chunks ! i = ?f i" if "i < m" for i
    using that by (simp add: nth_append)
  have full: "length (?f i) = sz" if "i < m" for i
  proof -
    have "(i + 1) * sz \<le> m * sz" using that by (intro mult_right_mono) auto
    then have "i * sz + sz \<le> length ps" using bound by simp
    then show ?thesis by simp
  qed
  have lastc: "?chunks ! m = drop (m * sz) ps"
    by (simp add: nth_append)
  have lastlen: "length (drop (m * sz) ps) = length ps mod m"
    using assms(4) by (simp add: minus_mult_div_eq_mod mult.commute)
  have ex: "divide_ports [1, 2, 3, 4, 5 :: port] 5 = Inr [[1], [2], [3], [4], [5], []]"
    by (simp add: divide_ports_def py_range_def py_slice_def py_slice_from_def py_bound_def
        Let_def upt_rec)
  from r len nth full lastc lastlen ex show ?thesis
    by (intro conjI exI [of _ ?chunks]) simp_all
qed

theorem divide_ports_shape_witness:
  "[10, 20, 30, 40, 50, 60, 70 :: port] \<noteq> [] \<and> (1::int) \<le> 3 \<and>
   divide_ports [10, 20, 30, 40, 50, 60, 70 :: port] 3 = Inr [[10, 20], [30, 40], [50, 60], [70]]"
proof -
  let ?ps = "[10, 20, 30, 40, 50, 60, 70 :: port]"
  have h1: "?ps \<noteq> []" by simp
  have h2: "(1::int) \<le> 3" by simp
  have h3: "(3::nat) = (if (3::int) > int (length ?ps) then length ?ps else nat 3)" by simp
  have h4: "(2::nat) = length ?ps div 3" by simp
  from divide_ports_shape [OF h1 h2 h3 h4]
  obtain chunks where c: "divide_ports ?ps 3 = Inr chunks" "length chunks = 3 + 1"
    "\<forall>i<3. chunks ! i = take 2 (drop (i * 2) ?ps) \<and> length (chunks ! i) = 2"
    "chunks ! 3 = drop (3 * 2) ?ps"
    by blast
  have "chunks = [chunks ! 0, chunks ! 1, chunks ! 2, chunks ! 3]"
    using c(2) by (intro nth_equalityI) (auto simp: nth_Cons' less_Suc_eq numeral_eq_Suc)
  moreover have "chunks ! 0 = [10, 20]" "chunks ! 1 = [30, 40]" "chunks ! 2 = [50, 60]"
    using c(3) by (simp_all add: numeral_eq_Suc)
  moreover have "chunks ! 3 = [70]" using c(4) by (simp add: numeral_eq_Suc)
  ultimately have "chunks = [[10, 20], [30, 40], [50, 60], [70]]" by simp
  with c(1) h1 h2 show ?thesis by simp
qed

text \<open>
  Claim C10. On the empty port list and any chunk count \<open>n \<ge> 1\<close> the clamp sets the chunk
  count to 0 and the integer division raises \<open>ZeroDivisionError\<close>: the call returns no
  chunk sequence.
\<close>

theorem divide_ports_empty_raises:
  assumes "1 \<le> n"
  shows "divide_ports ([] :: 'a list) n = Inl ZeroDivisionError"
  using assms by (simp add: divide_ports_def)

theorem divide_ports_empty_raises_witness:
  "(1::int) \<le> 4 \<and> divide_ports ([] :: port list) 4 = Inl ZeroDivisionError"
proof -
  have h: "(1::int) \<le> 4" by simp
  show ?thesis using h divide_ports_empty_raises [OF h, where 'a = port] by simp
qed

section \<open>Properties of scan\_port\<close>

text \<open>
  Claim C3, as amended. For every host, every port and every positive timeout that
  \<^verbatim>\<open>settimeout\<close> accepts (at most 9223372036 seconds), once the socket has been created a
  single probe returns one of three outcomes and does not raise: Open (\<open>True\<close>, no
  message) when the connect succeeds, Closed (\<open>False\<close>, no message) when the connection is
  refused or times out, both alike, and Errored (\<open>False\<close> with the text of the exception)
  on any other fault of the connect. A fault in creating the socket, which happens before
  the \<^verbatim>\<open>try\<close>, is raised to the caller.
\<close>

theorem scan_port_outcomes:
  assumes "0 < timeout self" and "timeout self \<le> max_timeout"
  shows "(net ip port = Socket Connected \<longrightarrow> scan_port self net ip port = Inr (True, None)) \<and>
         (net ip port = Socket Refused \<longrightarrow> scan_port self net ip port = Inr (False, None)) \<and>
         (net ip port = Socket TimedOut \<longrightarrow> scan_port self net ip port = Inr (False, None)) \<and>
         (\<forall>msg. net ip port = Socket (Fault msg) \<longrightarrow> scan_port self net ip port = Inr (False, Some msg)) \<and>
         (\<forall>msg. net ip port = SocketError msg \<longrightarrow> scan_port self net ip port = Inl (Exception msg)) \<and>
         ((\<exists>ev. net ip port = Socket ev) \<longrightarrow>
            scan_port self net ip port = Inr (True, None) \<or>
            scan_port self net ip port = Inr (False, None) \<or>
            (\<exists>msg. scan_port self net ip port = Inr (False, Some msg)))"
  using assms
  by (auto simp: scan_port_def max_timeout_def split: sock_event.splits connect_event.splits)

theorem scan_port_outcomes_witness:
  "0 < timeout \<lparr>timeout = 1\<rparr> \<and> timeout \<lparr>timeout = 1\<rparr> \<le> max_timeout \<and>
   scan_port \<lparr>timeout = 1\<rparr> demo_net ''10.0.0.1'' 22 = Inr (True, None) \<and>
   scan_port \<lparr>timeout = 1\<rparr> demo_net ''10.0.0.1'' 23 = Inr (False, None) \<and>
   scan_port \<lparr>timeout = 1\<rparr> demo_net ''10.0.0.1'' 24 = Inr (False, None) \<and>
   scan_port \<lparr>timeout = 1\<rparr> demo_net ''10.0.0.1'' 25 = Inr (False, Some ''[Errno 101] Network is unreachable'')"
proof -
  have h: "0 < timeout \<lparr>timeout = 1\<rparr>" by simp
  have m: "timeout \<lparr>timeout = 1\<rparr> \<le> max_timeout" by (simp add: max_timeout_def)
  show ?thesis
    using h m scan_port_outcomes [OF h m, of demo_net "''10.0.0.1''" 22]
      scan_port_outcomes [OF h m, of demo_net "''10.0.0.1''" 23]
      scan_port_outcomes [OF h m, of demo_net "''10.0.0.1''" 24]
      scan_port_outcomes [OF h m, of demo_net "''10.0.0.1''" 25]
    by (simp add: demo_net_def)
qed

text \<open>
  Claim C3 as stated says that a probe with a positive timeout never raises to its caller.
  With a timeout of 1 second and no file descriptor left for the socket, \<^verbatim>\<open>socket.socket\<close>
  raises before the \<^verbatim>\<open>try\<close> is entered and the exception leaves \<open>scan_port\<close>. With a
  timeout of 10000000000 seconds and a listener on the port, \<^verbatim>\<open>settimeout\<close> raises, again
  before the \<^verbatim>\<open>try\<close>.
\<close>

theorem scan_port_outcomes_counterexample:
  "0 < timeout \<lparr>timeout = 1\<rparr> \<and>
   scan_port \<lparr>timeout = 1\<rparr> exhausted_net ''10.0.0.1'' 80 =
     Inl (Exception ''[Errno 24] Too many open files'') \<and>
   0 < timeout \<lparr>timeout = 10000000000\<rparr> \<and>
   demo_net ''10.0.0.1'' 22 = Socket Connected \<and>
   scan_port \<lparr>timeout = 10000000000\<rparr> demo_net ''10.0.0.1'' 22 =
     Inl (Exception ''timestamp too large to convert to C _PyTime_t'')"
  by (simp add: scan_port_def exhausted_net_def demo_net_def max_timeout_def)

section \<open>Properties of scan\_ports\<close>

lemma completes_iff: "completes order n \<longleftrightarrow> (\<forall>i<n. i \<in> set order)"
  by (auto simp: completes_def list_all_iff)

lemma pool_results_done:
  "i < length tasks \<Longrightarrow> i \<in> set order \<Longrightarrow> pool_results order tasks i = tasks ! i"
  by (simp add: pool_results_def)

lemma pool_results_Some_iff:
  "pool_results order (map Some rs) i = Some r \<longleftrightarrow> i < length rs \<and> i \<in> set order \<and> rs ! i = r"
  by (auto simp: pool_results_def)

lemma pool_results_None_iff:
  "pool_results order (map Some rs) i = None \<longleftrightarrow> \<not> (i < length rs \<and> i \<in> set order)"
  by (auto simp: pool_results_def)

lemma scan_ports_loop_returns:
  "(\<exists>acc'. scan_ports_loop done i ps acc = Some acc') \<longleftrightarrow> (\<forall>j<length ps. done (i + j) \<noteq> None)"
proof (induction ps arbitrary: i acc)
  case Nil
  show ?case by simp
next
  case (Cons p ps)
  show ?case
  proof (cases "done i")
    case None
    then have "\<not> (\<forall>j<length (p # ps). done (i + j) \<noteq> None)"
      by (auto intro: exI [of _ 0])
    with None show ?thesis by simp
  next
    case (Some r)
    have "(\<forall>j<length (p # ps). done (i + j) \<noteq> None) \<longleftrightarrow> (\<forall>j<length ps. done (Suc i + j) \<noteq> None)"
      using Some by (auto simp: less_Suc_eq_0_disj)
    with Some Cons.IH [of "Suc i" "record_result p r acc"] show ?thesis by simp
  qed
qed

lemma scan_ports_loop_fold:
  assumes "length rs = length ps" and "\<forall>j<length ps. done (i + j) = Some (rs ! j)"
  shows "scan_ports_loop done i ps acc =
           Some (foldl (\<lambda>acc (port, r). record_result port r acc) acc (zip ps rs))"
  using assms
proof (induction ps arbitrary: i acc rs)
  case Nil
  then show ?case by simp
next
  case (Cons p ps)
  then obtain r rs' where rs: "rs = r # rs'" by (cases rs) auto
  have d0: "done i = Some r" using Cons.prems(2) rs by force
  have al: "\<forall>j<length ps. done (Suc i + j) = Some (rs' ! j)"
  proof (intro allI impI)
    fix j assume "j < length ps"
    then have "done (i + Suc j) = Some (rs ! Suc j)" using Cons.prems(2) by auto
    then show "done (Suc i + j) = Some (rs' ! j)" using rs by simp
  qed
  have len: "length rs' = length ps" using Cons.prems(1) rs by simp
  have "scan_ports_loop done (Suc i) ps (record_result p r acc) =
      Some (foldl (\<lambda>acc (port, r). record_result port r acc) (record_result p r acc) (zip ps rs'))"
    by (rule Cons.IH [OF len al])
  with d0 rs show ?case by simp
qed

lemma record_result_eq:
  "record_result p r (os, es) =
     (os @ (if opened r then [p] else []), es @ (if errored r then [(p, message r)] else []))"
  by (auto simp: record_result_def opened_def errored_def message_def truthy_def
      split: sum.splits option.splits exn.splits)

lemma collect_Cons: "collect ((p, r) # prs) acc = collect prs (record_result p r acc)"
  by (simp add: collect_def)

lemma collect_eq:
  "collect prs (os, es) =
     (os @ map fst (filter (opened \<circ> snd) prs),
      es @ map (\<lambda>(p, r). (p, message r)) (filter (errored \<circ> snd) prs))"
proof (induction prs arbitrary: os es)
  case Nil
  show ?case by (simp add: collect_def)
next
  case (Cons pr prs)
  obtain p r where pr: "pr = (p, r)" by (cases pr)
  show ?case by (simp add: pr collect_Cons record_result_eq Cons.IH)
qed

lemma collect_append:
  "collect (xs @ ys) acc = collect ys (collect xs acc)"
  by (simp add: collect_def)

lemma collect_from:
  "collect prs (os, es) = (os @ fst (collect prs ([], [])), es @ snd (collect prs ([], [])))"
  by (simp add: collect_eq)

lemma length_submit_probes: "length (submit_probes self env ip ps) = length ps"
  by (simp add: submit_probes_def)

lemma nth_submit_probes:
  "i < length ps \<Longrightarrow> submit_probes self env ip ps ! i = scan_port self (network env i) ip (ps ! i)"
  by (simp add: submit_probes_def nth_enumerate_eq)

lemma scan_ports_returns:
  assumes "1 \<le> c" and "completes (threads env c (length ps)) (length ps)"
  shows "scan_ports self env ip ps c =
           Some (Inr (collect (zip ps (submit_probes self env ip ps)) ([], [])))"
proof -
  let ?rs = "submit_probes self env ip ps"
  let ?done = "pool_results (threads env c (length ps)) (map Some ?rs)"
  have "\<forall>j<length ps. ?done (0 + j) = Some (?rs ! j)"
    using assms(2) by (simp add: completes_iff pool_results_def length_submit_probes)
  then have "scan_ports_loop ?done 0 ps ([], []) =
      Some (foldl (\<lambda>acc (port, r). record_result port r acc) ([], []) (zip ps ?rs))"
    by (intro scan_ports_loop_fold) (simp_all add: length_submit_probes)
  then show ?thesis using assms(1) by (simp add: scan_ports_def collect_def)
qed

lemma scan_ports_blocks:
  assumes "1 \<le> c" and "\<not> completes (threads env c (length ps)) (length ps)"
  shows "scan_ports self env ip ps c = None"
proof -
  let ?rs = "submit_probes self env ip ps"
  let ?done = "pool_results (threads env c (length ps)) (map Some ?rs)"
  obtain j where j: "j < length ps" "j \<notin> set (threads env c (length ps))"
    using assms(2) by (auto simp: completes_iff)
  then have "?done (0 + j) = None" by (simp add: pool_results_def)
  with j(1) have "\<not> (\<forall>j<length ps. ?done (0 + j) \<noteq> None)" by blast
  then have "\<not> (\<exists>acc'. scan_ports_loop ?done 0 ps ([], []) = Some acc')"
    using scan_ports_loop_returns [of ?done 0 ps "([], [])"] by blast
  then have "scan_ports_loop ?done 0 ps ([], []) = None"
    by (cases "scan_ports_loop ?done 0 ps ([], [])") auto
  then show ?thesis using assms(1) by (simp add: scan_ports_def)
qed

lemma scan_port_not_both: "\<not> (opened (scan_port self net ip port) \<and> errored (scan_port self net ip port))"
  by (auto simp: scan_port_def opened_def errored_def truthy_def
      split: sock_event.splits connect_event.splits)

lemma count_outcomes:
  "\<forall>r\<in>set rs. \<not> (opened r \<and> errored r) \<Longrightarrow>
   length (filter opened rs) + length (filter errored rs) + length (filter dropped rs) = length rs"
  by (induction rs) (auto simp: dropped_def)

lemma filter_snd_zip:
  "length ps = length rs \<Longrightarrow> map snd (filter (P \<circ> snd) (zip ps rs)) = filter P rs"
  by (induction ps rs rule: list_induct2) auto

lemma dropped_scan_port:
  "dropped (scan_port self net ip port) \<longleftrightarrow>
     closed (scan_port self net ip port) \<or> scan_port self net ip port = Inr (False, Some [])"
  by (auto simp: scan_port_def dropped_def closed_def opened_def errored_def truthy_def
      split: sock_event.splits connect_event.splits)

lemma scan_port_empty_message:
  "scan_port self net ip port = Inr (False, Some []) \<Longrightarrow> net ip port = Socket (Fault [])"
  by (auto simp: scan_port_def split: sock_event.splits connect_event.splits if_splits)

text \<open>
  For every concurrency bound \<open>c \<ge> 1\<close>, \<open>scan_ports\<close> returns exactly when the pool has
  completed all \<open>k\<close> probes, whatever the order of their completion. The open ports are
  the ports of the opened probes and the error entries those of the errored probes, both
  in the order of submission. When no connect fault has the empty text, the probes that
  leave no entry are the Closed ones, and the three counts add up to \<open>k\<close>.
\<close>

lemma scan_ports_outcome_counts:
  assumes "1 \<le> c"
  shows "((\<exists>r. scan_ports self env ip ps c = Some r) \<longleftrightarrow>
            completes (threads env c (length ps)) (length ps)) \<and>
         (\<forall>r. scan_ports self env ip ps c = Some r \<longrightarrow>
            (\<exists>open_ports errors.
               r = Inr (open_ports, errors) \<and>
               open_ports = map fst (filter (opened \<circ> snd) (zip ps (submit_probes self env ip ps))) \<and>
               map fst errors = map fst (filter (errored \<circ> snd) (zip ps (submit_probes self env ip ps))) \<and>
               length open_ports + length errors
                 + length (filter dropped (submit_probes self env ip ps)) = length ps \<and>
               ((\<forall>i<length ps. network env i ip (ps ! i) \<noteq> Socket (Fault [])) \<longrightarrow>
                  filter dropped (submit_probes self env ip ps)
                    = filter closed (submit_probes self env ip ps))))"
proof -
  let ?rs = "submit_probes self env ip ps"
  let ?prs = "zip ps ?rs"
  let ?os = "map fst (filter (opened \<circ> snd) ?prs)"
  let ?es = "map (\<lambda>(p, r). (p, message r)) (filter (errored \<circ> snd) ?prs)"
  have len: "length ps = length ?rs" by (simp add: length_submit_probes)
  have iff: "(\<exists>r. scan_ports self env ip ps c = Some r) \<longleftrightarrow>
      completes (threads env c (length ps)) (length ps)"
    using scan_ports_returns [OF assms, of env ps self ip] scan_ports_blocks [OF assms, of env ps self ip]
    by (cases "completes (threads env c (length ps)) (length ps)") auto
  have both: "\<forall>r\<in>set ?rs. \<not> (opened r \<and> errored r)"
    using scan_port_not_both by (auto simp: submit_probes_def)
  have lo: "length ?os = length (filter opened ?rs)"
    using arg_cong [OF filter_snd_zip [OF len, of opened], of length] by simp
  have le: "length ?es = length (filter errored ?rs)"
    using arg_cong [OF filter_snd_zip [OF len, of errored], of length] by simp
  have count: "length ?os + length ?es + length (filter dropped ?rs) = length ps"
    using count_outcomes [OF both] lo le len by simp
  have fst_es: "map fst ?es = map fst (filter (errored \<circ> snd) ?prs)"
    by (simp add: case_prod_unfold comp_def)
  have cl: "filter dropped ?rs = filter closed ?rs"
    if nf: "\<forall>i<length ps. network env i ip (ps ! i) \<noteq> Socket (Fault [])"
  proof (rule filter_cong [OF refl])
    fix r assume "r \<in> set ?rs"
    then obtain i where i: "i < length ps" "r = ?rs ! i"
      using len by (metis in_set_conv_nth)
    then have r: "r = scan_port self (network env i) ip (ps ! i)"
      by (simp add: nth_submit_probes)
    have "r \<noteq> Inr (False, Some [])"
      using scan_port_empty_message [of self "network env i" ip "ps ! i"] nf i(1) r by auto
    then show "dropped r = closed r" unfolding r by (simp add: dropped_scan_port)
  qed
  have res: "\<exists>open_ports errors. r = Inr (open_ports, errors) \<and> open_ports = ?os \<and>
      map fst errors = map fst (filter (errored \<circ> snd) ?prs) \<and>
      length open_ports + length errors + length (filter dropped ?rs) = length ps \<and>
      ((\<forall>i<length ps. network env i ip (ps ! i) \<noteq> Socket (Fault [])) \<longrightarrow>
         filter dropped ?rs = filter closed ?rs)"
    if "scan_ports self env ip ps c = Some r" for r
  proof -
    have comp: "completes (threads env c (length ps)) (length ps)"
      using iff that by blast
    have "r = Inr (?os, ?es)"
      using scan_ports_returns [OF assms comp, of self ip] that by (simp add: collect_eq)
    then show ?thesis using count fst_es cl by blast
  qed
  show ?thesis using iff res by blast
qed

text \<open>
  Claim C4 says that the open ports, the error entries and the dropped Closed outcomes
  of a batch of \<open>k\<close> probes number \<open>k\<close>. The code breaks it on a probe whose connect raises
  an exception with an empty text: \<open>scan_port\<close> returns \<^verbatim>\<open>(False, '')\<close>, an Errored outcome,
  and \<^verbatim>\<open>if error\<close> takes the empty string for no error, so the probe leaves no entry
  although it is not Closed. The \<^verbatim>\<open>except\<close> branch of the same loop appends \<^verbatim>\<open>str(e)\<close>
  whatever its length. On the ports 22, 30 and 25 the batch has one open port, one error
  entry and no Closed outcome.
\<close>

theorem scan_ports_empty_text_lost:
  "scan_port \<lparr>timeout = 1\<rparr> empty_text_net ''10.0.0.1'' 30 = Inr (False, Some []) \<and>
   scan_ports \<lparr>timeout = 1\<rparr> empty_text_env ''10.0.0.1'' [22, 30, 25] 2 =
     Some (Inr ([22], [(25, ''[Errno 101] Network is unreachable'')])) \<and>
   filter closed (submit_probes \<lparr>timeout = 1\<rparr> empty_text_env ''10.0.0.1'' [22, 30, 25]) = [] \<and>
   length [22 :: port] + length [(25 :: port, ''[Errno 101] Network is unreachable'')]
     + length (filter closed (submit_probes \<lparr>timeout = 1\<rparr> empty_text_env ''10.0.0.1'' [22, 30, 25]))
     \<noteq> length [22, 30, 25 :: port]"
  by code_simp

text \<open>
  Claim C5. When the future of the probe at position \<open>j\<close> raises while the loop retrieves
  its result, the batch is not aborted: \<open>scan_ports\<close> returns, the entries collected from
  the futures before \<open>j\<close> are all kept, the fault is recorded as the error entry
  \<open>(port, message)\<close> of that port, and the futures after \<open>j\<close> contribute as usual.
\<close>

theorem scan_ports_fault_recorded:
  assumes "1 \<le> c"
    and "completes (threads env c (length ps)) (length ps)"
    and "j < length ps"
    and "submit_probes self env ip ps ! j = Inl (Exception msg)"
  shows "\<exists>open_ports errors os_before es_before os_after es_after.
           scan_ports self env ip ps c = Some (Inr (open_ports, errors)) \<and>
           collect (take j (zip ps (submit_probes self env ip ps))) ([], []) = (os_before, es_before) \<and>
           collect (drop (Suc j) (zip ps (submit_probes self env ip ps))) ([], []) = (os_after, es_after) \<and>
           open_ports = os_before @ os_after \<and>
           errors = es_before @ [(ps ! j, msg)] @ es_after"
proof -
  let ?rs = "submit_probes self env ip ps"
  let ?prs = "zip ps ?rs"
  have j: "j < length ?prs" using assms(3) by (simp add: length_submit_probes)
  have split: "?prs = take j ?prs @ (ps ! j, Inl (Exception msg)) # drop (Suc j) ?prs"
    using id_take_nth_drop [OF j] assms(3,4) j by simp
  obtain os1 es1 where c1: "collect (take j ?prs) ([], []) = (os1, es1)"
    by (cases "collect (take j ?prs) ([], [])")
  obtain os2 es2 where c2: "collect (drop (Suc j) ?prs) ([], []) = (os2, es2)"
    by (cases "collect (drop (Suc j) ?prs) ([], [])")
  have r: "record_result (ps ! j) (Inl (Exception msg)) (os1, es1) = (os1, es1 @ [(ps ! j, msg)])"
    by (simp add: record_result_def)
  have "collect ?prs ([], []) =
      collect (drop (Suc j) ?prs) (record_result (ps ! j) (Inl (Exception msg)) (os1, es1))"
    by (subst split) (simp add: collect_append collect_Cons c1)
  also have "\<dots> = (os1 @ os2, (es1 @ [(ps ! j, msg)]) @ es2)"
    unfolding r using collect_from [of "drop (Suc j) ?prs" os1 "es1 @ [(ps ! j, msg)]"] c2 by simp
  finally have "collect ?prs ([], []) = (os1 @ os2, es1 @ [(ps ! j, msg)] @ es2)" by simp
  then have "scan_ports self env ip ps c = Some (Inr (os1 @ os2, es1 @ [(ps ! j, msg)] @ es2))"
    using scan_ports_returns [OF assms(1,2), of self ip] by simp
  with c1 c2 show ?thesis by blast
qed

theorem scan_ports_fault_recorded_witness:
  "(1::int) \<le> 3 \<and> completes (threads demo_batch_env 3 (length [21, 22, 23, 24, 25, 26, 22 :: port]))
       (length [21, 22, 23, 24, 25, 26, 22 :: port]) \<and>
   5 < length [21, 22, 23, 24, 25, 26, 22 :: port] \<and>
   submit_probes \<lparr>timeout = 1\<rparr> demo_batch_env ''10.0.0.1'' [21, 22, 23, 24, 25, 26, 22] ! 5 =
     Inl (Exception ''[Errno 24] Too many open files'') \<and>
   scan_ports \<lparr>timeout = 1\<rparr> demo_batch_env ''10.0.0.1'' [21, 22, 23, 24, 25, 26, 22] 3 =
     Some (Inr ([22] @ [22],
                [(25, ''[Errno 101] Network is unreachable'')]
                  @ [(26, ''[Errno 24] Too many open files'')] @ []))"
proof -
  let ?ps = "[21, 22, 23, 24, 25, 26, 22 :: port]"
  let ?self = "\<lparr>timeout = 1\<rparr>"
  have h1: "(1::int) \<le> 3" by simp
  have h2: "completes (threads demo_batch_env 3 (length ?ps)) (length ?ps)" by code_simp
  have h3: "5 < length ?ps" by simp
  have h4: "submit_probes ?self demo_batch_env ''10.0.0.1'' ?ps ! 5 =
      Inl (Exception ''[Errno 24] Too many open files'')" by code_simp
  have b: "collect (take 5 (zip ?ps (submit_probes ?self demo_batch_env ''10.0.0.1'' ?ps))) ([], [])
      = ([22], [(25, ''[Errno 101] Network is unreachable'')])" by code_simp
  have a: "collect (drop (Suc 5) (zip ?ps (submit_probes ?self demo_batch_env ''10.0.0.1'' ?ps))) ([], [])
      = ([22], [])" by code_simp
  have n: "?ps ! 5 = 26" by simp
  from scan_ports_fault_recorded [OF h1 h2 h3 h4]
  have "scan_ports ?self demo_batch_env ''10.0.0.1'' ?ps 3 =
      Some (Inr ([22] @ [22], [(25, ''[Errno 101] Network is unreachable'')]
                  @ [(26, ''[Errno 24] Too many open files'')] @ []))"
    unfolding a b n by blast
  with h1 h2 h3 h4 show ?thesis by blast
qed

section \<open>Properties of scan\_network\<close>

lemma scan_network_loop_returns:
  "(\<exists>acc'. scan_network_loop done u us acc = Some acc') \<longleftrightarrow> (\<forall>j<length us. done (u + j) \<noteq> None)"
proof (induction us arbitrary: u acc)
  case Nil
  show ?case by simp
next
  case (Cons x us)
  obtain ip pr where x: "x = (ip, pr)" by (cases x)
  show ?case
  proof (cases "done u")
    case None
    then have "\<not> (\<forall>j<length (x # us). done (u + j) \<noteq> None)"
      by (auto intro: exI [of _ 0])
    with None show ?thesis by (simp add: x)
  next
    case (Some r)
    have "(\<forall>j<length (x # us). done (u + j) \<noteq> None) \<longleftrightarrow> (\<forall>j<length us. done (Suc u + j) \<noteq> None)"
      using Some by (auto simp: less_Suc_eq_0_disj)
    with Some Cons.IH [of "Suc u" "record_unit ip r acc"] show ?thesis by (simp add: x)
  qed
qed

lemma aggregate_Cons: "aggregate ((ip, r) # irs) acc = aggregate irs (record_unit ip r acc)"
  by (simp add: aggregate_def)

lemma aggregate_append: "aggregate (xs @ ys) acc = aggregate ys (aggregate xs acc)"
  by (simp add: aggregate_def)

lemma scan_network_loop_fold:
  assumes "length rs = length us" and "\<forall>j<length us. done (u + j) = Some (rs ! j)"
  shows "scan_network_loop done u us acc = Some (aggregate (zip (map fst us) rs) acc)"
  using assms
proof (induction us arbitrary: u acc rs)
  case Nil
  then show ?case by (simp add: aggregate_def)
next
  case (Cons x us)
  obtain ip pr where x: "x = (ip, pr)" by (cases x)
  from Cons.prems(1) obtain r rs' where rs: "rs = r # rs'" by (cases rs) auto
  have d0: "done u = Some r" using Cons.prems(2) rs by force
  have al: "\<forall>j<length us. done (Suc u + j) = Some (rs' ! j)"
  proof (intro allI impI)
    fix j assume "j < length us"
    then have "done (u + Suc j) = Some (rs ! Suc j)" using Cons.prems(2) by auto
    then show "done (Suc u + j) = Some (rs' ! j)" using rs by simp
  qed
  have len: "length rs' = length us" using Cons.prems(1) rs by simp
  have "scan_network_loop done (Suc u) us (record_unit ip r acc) =
      Some (aggregate (zip (map fst us) rs') (record_unit ip r acc))"
    by (rule Cons.IH [OF len al])
  with d0 rs x show ?case by (simp add: aggregate_Cons)
qed


lemma record_unit_Inl: "record_unit ip (Inl e) acc = acc"
  by (cases acc) (simp add: record_unit_def)

lemma record_unit_empty: "record_unit ip (Inr ([], [])) acc = acc"
  by (cases acc) (simp add: record_unit_def)



lemma nth_submit_units:
  "u < length units \<Longrightarrow>
   submit_units self env units ! u =
     scan_ip self (unit_env env u) (fst (units ! u)) (snd (units ! u))"
  by (simp add: submit_units_def nth_enumerate_eq case_prod_unfold)


lemma process_pool_results_value:
  assumes "process_pool_results order death tasks u = Some (Inr b)"
  shows "u < length tasks \<and> tasks ! u = Some (Inr b)"
  using assms
  by (auto simp: process_pool_results_def pool_results_def broken_pool_def
      split: option.splits if_splits)


lemma scan_network_returns:
  assumes "ip_hosts (ip_range self) = Inr hosts" and "1 \<le> num_processes self"
    and "units = scan_units hosts port_ranges"
    and "map (unit_futures self env units) [0..<length units] = map Some results"
  shows "scan_network self ip_hosts env port_ranges =
           Some (Inr (aggregate (zip (map fst units) results) (Map.empty, Map.empty)))"
proof -
  let ?done = "unit_futures self env units"
  have len: "length results = length units"
    using arg_cong [OF assms(4), of length] by simp
  have "?done (0 + j) = Some (results ! j)" if "j < length units" for j
    using arg_cong [OF assms(4), of "\<lambda>xs. xs ! j"] that len by simp
  then have "\<forall>j<length units. ?done (0 + j) = Some (results ! j)" by blast
  then have "scan_network_loop ?done 0 units (Map.empty, Map.empty) =
      Some (aggregate (zip (map fst units) results) (Map.empty, Map.empty))"
    by (rule scan_network_loop_fold [OF len])
  then show ?thesis using assms(1,2,3) by (simp add: scan_network_def Let_def)
qed

text \<open>
  The example scan: its futures when no worker dies, and when the pool breaks after four
  units under a pool of size 8 and under a pool of size 1.
\<close>

lemma demo_hosts_ok: "demo_hosts (ip_range demo_scanner) = Inr [''10.0.0.1'', ''10.0.0.2'']"
  by (simp add: demo_hosts_def demo_scanner_def NetworkScanner_init_def)

lemma demo_units_eq: "demo_units = scan_units [''10.0.0.1'', ''10.0.0.2''] demo_port_ranges"
  by code_simp

lemma demo_futures:
  "map (unit_futures demo_scanner demo_scan_env demo_units) [0..<length demo_units]
     = map Some demo_results"
  by code_simp




lemma demo_aggregate:
  "aggregate (zip (map fst demo_units) demo_results) (Map.empty, Map.empty) = (om, em) \<Longrightarrow>
   om ''10.0.0.1'' = Some [22] \<and> om ''10.0.0.2'' = Some [22] \<and>
   em ''10.0.0.1'' = Some [(25, ''[Errno 101] Network is unreachable''),
                            (26, ''[Errno 24] Too many open files'')] \<and>
   em ''10.0.0.2'' = Some [(25, ''[Errno 101] Network is unreachable''),
                            (26, ''[Errno 24] Too many open files'')]"
  by (auto simp: demo_units_def demo_results_def aggregate_def record_unit_def extend_def)



lemma demo_scan:
  "\<exists>om em. scan_network demo_scanner demo_hosts demo_scan_env demo_port_ranges = Some (Inr (om, em)) \<and>
     om ''10.0.0.1'' = Some [22] \<and> om ''10.0.0.2'' = Some [22] \<and>
     em ''10.0.0.1'' = Some [(25, ''[Errno 101] Network is unreachable''),
                              (26, ''[Errno 24] Too many open files'')] \<and>
     em ''10.0.0.2'' = Some [(25, ''[Errno 101] Network is unreachable''),
                              (26, ''[Errno 24] Too many open files'')]"
proof -
  have h2: "1 \<le> num_processes demo_scanner"
    by (simp add: demo_scanner_def NetworkScanner_init_def)
  obtain om em where a: "aggregate (zip (map fst demo_units) demo_results) (Map.empty, Map.empty) = (om, em)"
    by (cases "aggregate (zip (map fst demo_units) demo_results) (Map.empty, Map.empty)")
  have "scan_network demo_scanner demo_hosts demo_scan_env demo_port_ranges =
      Some (Inr (aggregate (zip (map fst demo_units) demo_results) (Map.empty, Map.empty)))"
    using demo_hosts_ok h2 demo_units_eq demo_futures by (rule scan_network_returns)
  then show ?thesis using a demo_aggregate [OF a] by auto
qed






text \<open>
  How an open port gets into the dictionary: through \<open>extend\<close>, from the result of a unit
  of that host, from a probe of that unit that opened.
\<close>

lemma extend_lookup:
  assumes "extend d ip xs h = Some ys" and "y \<in> set ys"
  shows "(\<exists>ys0. d h = Some ys0 \<and> y \<in> set ys0) \<or> (h = ip \<and> y \<in> set xs)"
  using assms by (auto simp: extend_def split: if_splits option.splits)

lemma record_unit_open:
  assumes "fst (record_unit ip r acc) h = Some ops" and "p \<in> set ops"
  shows "(\<exists>ops0. fst acc h = Some ops0 \<and> p \<in> set ops0) \<or>
         (h = ip \<and> (\<exists>os es. r = Inr (os, es) \<and> p \<in> set os))"
proof (cases r)
  case (Inl e)
  then show ?thesis using assms by (simp add: record_unit_Inl)
next
  case (Inr b)
  obtain os es where b: "b = (os, es)" by (cases b)
  obtain om em where acc: "acc = (om, em)" by (cases acc)
  show ?thesis
  proof (cases "os = []")
    case True
    then show ?thesis using assms Inr b acc by (simp add: record_unit_def)
  next
    case False
    then have "extend om ip os h = Some ops"
      using assms(1) Inr b acc by (simp add: record_unit_def)
    from extend_lookup [OF this assms(2)] show ?thesis using Inr b acc by auto
  qed
qed

lemma aggregate_open:
  assumes "fst (aggregate irs acc) h = Some ops" and "p \<in> set ops"
  shows "(\<exists>ops0. fst acc h = Some ops0 \<and> p \<in> set ops0) \<or>
         (\<exists>j<length irs. \<exists>os es. irs ! j = (h, Inr (os, es)) \<and> p \<in> set os)"
  using assms
proof (induction irs arbitrary: acc)
  case Nil
  then show ?case by (simp add: aggregate_def)
next
  case (Cons x irs)
  obtain ip r where x: "x = (ip, r)" by (cases x)
  have a: "fst (aggregate irs (record_unit ip r acc)) h = Some ops"
    using Cons.prems(1) by (simp add: x aggregate_Cons)
  from Cons.IH [OF a Cons.prems(2)]
  consider (acc) ops0 where "fst (record_unit ip r acc) h = Some ops0" "p \<in> set ops0"
    | (later) j os es where "j < length irs" "irs ! j = (h, Inr (os, es))" "p \<in> set os"
    by blast
  then show ?case
  proof cases
    case acc
    from record_unit_open [OF acc]
    consider (old) ops1 where "fst acc h = Some ops1" "p \<in> set ops1"
      | (here) os es where "h = ip" "r = Inr (os, es)" "p \<in> set os"
      by blast
    then show ?thesis
    proof cases
      case old
      then show ?thesis by blast
    next
      case here
      then have "0 < length (x # irs) \<and> (x # irs) ! 0 = (h, Inr (os, es)) \<and> p \<in> set os"
        by (simp add: x)
      then show ?thesis by blast
    qed
  next
    case later
    then have "Suc j < length (x # irs) \<and> (x # irs) ! Suc j = (h, Inr (os, es)) \<and> p \<in> set os"
      by simp
    then show ?thesis by blast
  qed
qed

lemma opened_scan_port:
  "opened (scan_port s net h p) \<Longrightarrow> scan_port s net h p = Inr (True, None)"
  by (auto simp: scan_port_def opened_def split: sock_event.splits connect_event.splits if_splits)

lemma scan_ports_open:
  assumes "scan_ports s env h pr c = Some (Inr (os, es))" and "p \<in> set os"
  shows "\<exists>i<length pr. pr ! i = p \<and> scan_port s (network env i) h p = Inr (True, None)"
proof -
  let ?rs = "submit_probes s env h pr"
  have c: "1 \<le> c" using assms(1) by (auto simp: scan_ports_def split: if_splits)
  have comp: "completes (threads env c (length pr)) (length pr)"
    using scan_ports_blocks [OF c, of env pr s h] assms(1) by auto
  have "os = map fst (filter (opened \<circ> snd) (zip pr ?rs))"
    using scan_ports_returns [OF c comp, of s h] assms(1) by (simp add: collect_eq)
  with assms(2) obtain r where "(p, r) \<in> set (zip pr ?rs)" "opened r" by auto
  then obtain i where i: "i < length pr" "pr ! i = p" "?rs ! i = r"
    by (auto simp: in_set_zip)
  have "r = scan_port s (network env i) h p"
    using i nth_submit_probes [of i pr s env h] by simp
  with \<open>opened r\<close> have "scan_port s (network env i) h p = Inr (True, None)"
    using opened_scan_port by simp
  with i show ?thesis by blast
qed

lemma scan_network_result:
  assumes "scan_network self ip_hosts env port_ranges = Some (Inr (om, em))"
  shows "\<exists>hosts results.
           ip_hosts (ip_range self) = Inr hosts \<and>
           length results = length (scan_units hosts port_ranges) \<and>
           (\<forall>j<length results. unit_futures self env (scan_units hosts port_ranges) j
                                   = Some (results ! j)) \<and>
           (om, em) = aggregate (zip (map fst (scan_units hosts port_ranges)) results)
                        (Map.empty, Map.empty)"
proof -
  obtain hosts where h: "ip_hosts (ip_range self) = Inr hosts"
    using assms by (auto simp: scan_network_def split: sum.splits)
  let ?units = "scan_units hosts port_ranges"
  let ?done = "unit_futures self env ?units"
  have loop: "scan_network_loop ?done 0 ?units (Map.empty, Map.empty) = Some (om, em)"
    using assms h by (auto simp: scan_network_def Let_def split: if_splits)
  then have "\<forall>j<length ?units. ?done (0 + j) \<noteq> None"
    using scan_network_loop_returns [of ?done 0 ?units "(Map.empty, Map.empty)"] by blast
  then have d: "\<forall>j<length ?units. ?done j \<noteq> None" by simp
  define results where "results = map (\<lambda>j. the (?done j)) [0..<length ?units]"
  have len: "length results = length ?units" by (simp add: results_def)
  have r: "?done j = Some (results ! j)" if "j < length ?units" for j
    using d that by (auto simp: results_def)
  have "\<forall>j<length ?units. ?done (0 + j) = Some (results ! j)" using r by simp
  then have "scan_network_loop ?done 0 ?units (Map.empty, Map.empty) =
      Some (aggregate (zip (map fst ?units) results) (Map.empty, Map.empty))"
    by (rule scan_network_loop_fold [OF len])
  with loop have "(om, em) = aggregate (zip (map fst ?units) results) (Map.empty, Map.empty)"
    by simp
  with h len r show ?thesis by auto
qed

lemma record_result_one_list:
  "fst (record_result q (scan_port s net h q) (os, es)) = os \<or>
   snd (record_result q (scan_port s net h q) (os, es)) = es"
  using scan_port_not_both [of s net h q] by (auto simp: record_result_eq)

text \<open>
  Claim C8. In every scan that returns, every open port listed under a host comes from
  a unit of that host with a chunk that holds the port at some position, and the probe of
  that position returned Open, \<^verbatim>\<open>(True, None)\<close>, for this host and this port. No probe
  contributes both an open port and an error entry: recording the result of a probe
  leaves the open ports or the errors as they were.
\<close>

theorem open_port_confirmed:
  assumes "scan_network self ip_hosts env port_ranges = Some (Inr (open_ports_dict, errors_dict))"
    and "open_ports_dict ip = Some open_ports"
    and "p \<in> set open_ports"
  shows "(\<exists>hosts u port_range i.
            ip_hosts (ip_range self) = Inr hosts \<and>
            u < length (scan_units hosts port_ranges) \<and>
            scan_units hosts port_ranges ! u = (ip, port_range) \<and>
            i < length port_range \<and> port_range ! i = p \<and>
            scan_port (port_scanner self) (network (unit_env env u) i) ip p = Inr (True, None)) \<and>
         (\<forall>s net h q os es.
            fst (record_result q (scan_port s net h q) (os, es)) = os \<or>
            snd (record_result q (scan_port s net h q) (os, es)) = es)"
proof -
  from scan_network_result [OF assms(1)] obtain hosts results where
    h: "ip_hosts (ip_range self) = Inr hosts" and
    len: "length results = length (scan_units hosts port_ranges)" and
    fut: "\<forall>j<length results. unit_futures self env (scan_units hosts port_ranges) j
             = Some (results ! j)" and
    agg: "(open_ports_dict, errors_dict) =
            aggregate (zip (map fst (scan_units hosts port_ranges)) results) (Map.empty, Map.empty)"
    by blast
  let ?units = "scan_units hosts port_ranges"
  let ?irs = "zip (map fst ?units) results"
  have "fst (aggregate ?irs (Map.empty, Map.empty)) ip = Some open_ports"
    using agg [symmetric] assms(2) by simp
  from aggregate_open [OF this assms(3)]
  obtain u os es where u: "u < length ?irs" "?irs ! u = (ip, Inr (os, es))" "p \<in> set os"
    by auto
  have ul: "u < length ?units" using u(1) len by simp
  have ip: "fst (?units ! u) = ip" and res: "results ! u = Inr (os, es)"
    using u(2) ul len by simp_all
  obtain port_range where pr: "?units ! u = (ip, port_range)"
    using ip by (cases "?units ! u") simp
  have "unit_futures self env ?units u = Some (Inr (os, es))"
    using fut ul len res by simp
  then have "process_pool_results (processes env (num_processes self) (length ?units))
      (worker_death env) (submit_units self env ?units) u = Some (Inr (os, es))"
    by (simp add: unit_futures_def)
  from process_pool_results_value [OF this]
  have t: "submit_units self env ?units ! u = Some (Inr (os, es))" by simp
  have "scan_ip self (unit_env env u) ip port_range = Some (Inr (os, es))"
    using t ul pr by (simp add: nth_submit_units)
  then have "scan_ports (port_scanner self) (unit_env env u) ip port_range (max_workers self)
      = Some (Inr (os, es))"
    by (simp add: scan_ip_def)
  from scan_ports_open [OF this u(3)]
  obtain i where "i < length port_range" "port_range ! i = p"
    "scan_port (port_scanner self) (network (unit_env env u) i) ip p = Inr (True, None)"
    by blast
  with h ul pr have first: "\<exists>hosts u port_range i.
      ip_hosts (ip_range self) = Inr hosts \<and>
      u < length (scan_units hosts port_ranges) \<and>
      scan_units hosts port_ranges ! u = (ip, port_range) \<and>
      i < length port_range \<and> port_range ! i = p \<and>
      scan_port (port_scanner self) (network (unit_env env u) i) ip p = Inr (True, None)"
    by blast
  have second: "\<forall>s net h q os es.
      fst (record_result q (scan_port s net h q) (os, es)) = os \<or>
      snd (record_result q (scan_port s net h q) (os, es)) = es"
    using record_result_one_list by blast
  from first second show ?thesis by (rule conjI)
qed

theorem open_port_confirmed_witness:
  "\<exists>open_ports_dict errors_dict.
     scan_network demo_scanner demo_hosts demo_scan_env demo_port_ranges =
       Some (Inr (open_ports_dict, errors_dict)) \<and>
     open_ports_dict ''10.0.0.2'' = Some [22] \<and> (22 :: port) \<in> set [22] \<and>
     (\<exists>hosts u port_range i.
        demo_hosts (ip_range demo_scanner) = Inr hosts \<and>
        u < length (scan_units hosts demo_port_ranges) \<and>
        scan_units hosts demo_port_ranges ! u = (''10.0.0.2'', port_range) \<and>
        i < length port_range \<and> port_range ! i = 22 \<and>
        scan_port (port_scanner demo_scanner) (network (unit_env demo_scan_env u) i)
          ''10.0.0.2'' 22 = Inr (True, None))"
proof -
  from demo_scan obtain om em where
    r: "scan_network demo_scanner demo_hosts demo_scan_env demo_port_ranges = Some (Inr (om, em))"
    and o: "om ''10.0.0.2'' = Some [22]"
    by blast
  have m: "(22 :: port) \<in> set [22]" by simp
  note t = open_port_confirmed [OF r o m, THEN conjunct1]
  show ?thesis
    by (rule exI [of _ om], rule exI [of _ em]) (intro conjI r o m t)
qed

text \<open>
  Claim C9. For every host and every concurrency bound \<open>c \<ge> 1\<close>, \<open>scan_ports\<close> on the
  empty port list returns an empty list of open ports and an empty list of errors, whatever
  the environment. The loop of \<open>scan_network\<close> leaves both dictionaries as they are on such
  a result, and the unit of an empty chunk returns this result.
\<close>

theorem scan_network_empty_chunk:
  assumes "1 \<le> c"
  shows "scan_ports self env ip [] c = Some (Inr ([], [])) \<and>
         record_unit ip (Inr ([], [])) acc = acc \<and>
         (\<forall>futures u rest. futures u = Some (Inr ([], [])) \<longrightarrow>
            scan_network_loop futures u ((ip, []) # rest) acc =
              scan_network_loop futures (Suc u) rest acc) \<and>
         (\<forall>scanner senv units u.
            u < length units \<and> units ! u = (ip, []) \<and> max_workers scanner = c \<longrightarrow>
            submit_units scanner senv units ! u = Some (Inr ([], [])))"
proof -
  have a: "scan_ports s e ip [] c = Some (Inr ([], []))" for s e
    using assms by (simp add: scan_ports_def)
  have b: "record_unit ip (Inr ([], [])) acc = acc" by (rule record_unit_empty)
  have "submit_units scanner senv units ! u = Some (Inr ([], []))"
    if "u < length units" "units ! u = (ip, [])" "max_workers scanner = c"
    for scanner senv units u
    using that a by (simp add: nth_submit_units scan_ip_def)
  with a b show ?thesis by simp
qed

theorem scan_network_empty_chunk_witness:
  "(1::int) \<le> 100 \<and>
   scan_ports \<lparr>timeout = 1\<rparr> demo_batch_env ''10.0.0.1'' [] 100 = Some (Inr ([], [])) \<and>
   record_unit ''10.0.0.1'' (Inr ([], [])) (Map.empty, Map.empty) = (Map.empty, Map.empty) \<and>
   2 < length demo_units \<and> demo_units ! 2 = (''10.0.0.1'', []) \<and>
   max_workers demo_scanner = 100 \<and>
   submit_units demo_scanner demo_scan_env demo_units ! 2 = Some (Inr ([], []))"
proof -
  have h: "(1::int) \<le> 100" by simp
  note t = scan_network_empty_chunk [OF h, of "\<lparr>timeout = 1\<rparr>" demo_batch_env "''10.0.0.1''"
        "(Map.empty, Map.empty)"]
  have p: "2 < length demo_units" "demo_units ! 2 = (''10.0.0.1'', [])"
    "max_workers demo_scanner = 100"
    by (simp_all add: demo_units_def demo_scanner_def NetworkScanner_init_def)
  show ?thesis using h t p by blast
qed

end
